theory Spec2Isabelle
  imports Main
begin

section \<open>Data model (src/database/models.py)\<close>

text \<open>
  The SQLAlchemy models, with the columns the rules engine reads or writes.
  Field names carry a one-letter prefix because record fields share one name space
  (\<open>predicate\<close> and \<open>rule_id\<close> occur in several models, \<open>id\<close> is a HOL constant).
  Strings are byte strings. Nullable columns are options.

  The value of a \<open>DateTime\<close> attribute of a message object is a naive datetime (an
  integer number of microseconds, so that the difference of two of them is the
  \<open>timedelta\<close> in microseconds), a timezone-aware datetime (what
  \<open>message_to_email\<close> in src/gmail/client.py builds with \<open>%z\<close>), or None
  (an object built without the attribute). Subtracting either of the last two from
  \<open>datetime.utcnow()\<close> raises TypeError.
\<close>

datatype py_datetime = Naive int | Aware int | No_Datetime

record email =
  gmail_id :: string
  from_address :: string
  subject :: "string option"
  content :: "string option"
  received_date :: py_datetime
  is_read :: bool
  current_label :: "string option"

record rule =
  r_id :: int
  r_name :: string
  r_identifier :: string
  r_predicate :: string
  r_active :: bool

record rule_condition =
  c_rule_id :: int
  c_field :: string
  c_predicate :: string
  c_value :: string
  c_unit :: "string option"

record rule_action =
  a_rule_id :: int
  a_action_type :: string
  a_action_value :: "string option"

record processed_email =
  p_gmail_id :: string
  p_rule_identifier :: string
  p_processed_at :: int

section \<open>The collaborators of the engine\<close>

text \<open>
  The three mutating methods of \<open>GmailClient\<close> that the engine calls. Each returns a
  bool (src/gmail/client.py catches every exception and returns False).
  \<open>move_message\<close> is called with \<open>action.action_value\<close>, a nullable column.
\<close>

datatype port_call =
  Mark_As_Read string
| Mark_As_Unread string
| Move_Message string "string option"

text \<open>
  What the engine cannot see is a parameter: \<open>utcnow n\<close> is what the \<open>n\<close>-th reading of
  \<open>datetime.utcnow()\<close> returns, \<open>gmail_client log call\<close> is what the mailbox answers
  to \<open>call\<close> after the calls in \<open>log\<close> have been made, \<open>int_of_str s\<close> is what
  the interpreter's \<open>int(s)\<close> returns for a string, \<open>None\<close> when it raises
  ValueError, and \<open>str_lower s\<close> is the interpreter's \<open>s.lower()\<close>. Which strings
  \<open>int\<close> accepts (blanks, signs, underscores, the decimal digits of every script,
  the limit on the number of digits) and how \<open>lower\<close> maps the letters of every
  script is the interpreter's business; the engine only looks at the outcome.
\<close>

record outside =
  utcnow :: "nat \<Rightarrow> int"
  int_of_str :: "string \<Rightarrow> int option"
  str_lower :: "string \<Rightarrow> string"
  gmail_client :: "port_call list \<Rightarrow> port_call \<Rightarrow> bool"

text \<open>
  The state the engine works on: the four tables it queries, the log of the calls made
  to the mailbox so far, and the number of clock readings so far.
\<close>

record world =
  rules_tbl :: "rule list"
  conditions_tbl :: "rule_condition list"
  actions_tbl :: "rule_action list"
  processed_tbl :: "processed_email list"
  port_log :: "port_call list"
  ticks :: nat

datatype error = UnboundLocalError | OverflowError

section \<open>Python built-ins used by the engine\<close>

text \<open>\<open>x or ''\<close> for an optional string: None and the empty string both give \<open>''\<close>.\<close>

definition or_empty :: "string option \<Rightarrow> string" where
  "or_empty x = (case x of None \<Rightarrow> [] | Some s \<Rightarrow> s)"

text \<open>\<open>a in b\<close> on strings: \<open>a\<close> occurs in \<open>b\<close> as a contiguous substring.\<close>

fun py_in :: "string \<Rightarrow> string \<Rightarrow> bool" where
  "py_in a [] = (a = [])"
| "py_in a (y # ys) = (take (length a) (y # ys) = a \<or> py_in a ys)"

text \<open>
  \<open>timedelta(days=n)\<close> in microseconds; it raises OverflowError when the magnitude of
  \<open>n\<close> exceeds 999999999.
\<close>

definition timedelta_days :: "int \<Rightarrow> error + int" where
  "timedelta_days n =
     (if 999999999 < \<bar>n\<bar> then Inl OverflowError else Inr (n * 86400000000))"

text \<open>\<open>max(xs, key=f)\<close> on a non-empty list \<open>x # xs\<close>: the first maximal element.\<close>

fun max_by :: "('a \<Rightarrow> int) \<Rightarrow> 'a \<Rightarrow> 'a list \<Rightarrow> 'a" where
  "max_by f best [] = best"
| "max_by f best (x # xs) = max_by f (if f best < f x then x else best) xs"

section \<open>Condition evaluator (src/rules/engine.py)\<close>

text \<open>
  The leading underscore of the private methods is dropped, since an Isabelle name
  cannot start with one.
\<close>

definition evaluate_string_condition :: "outside \<Rightarrow> rule_condition \<Rightarrow> string \<Rightarrow> bool" where
  "evaluate_string_condition out condition v =
     (if c_predicate condition = ''contains''
        then py_in (str_lower out (c_value condition)) (str_lower out v)
      else if c_predicate condition = ''does_not_contain''
        then \<not> py_in (str_lower out (c_value condition)) (str_lower out v)
      else if c_predicate condition = ''equals''
        then str_lower out (c_value condition) = str_lower out v
      else if c_predicate condition = ''does_not_equal''
        then str_lower out (c_value condition) \<noteq> str_lower out v
      else False)"

text \<open>
  The date evaluator reads the clock only in the two comparison branches, after the
  \<open>timedelta\<close> has been built. It returns its result (or the exception that escapes
  its \<open>except (ValueError, TypeError)\<close>) and the new number of clock readings. The
  ValueError of \<open>int\<close> and the TypeError of the subtraction (raised after
  \<open>utcnow()\<close> has been called) are caught and give False; the OverflowError of
  \<open>timedelta\<close> is not caught.
\<close>

definition evaluate_date_condition ::
  "outside \<Rightarrow> rule_condition \<Rightarrow> py_datetime \<Rightarrow> nat \<Rightarrow> (error + bool) \<times> nat" where
  "evaluate_date_condition out condition date t =
     (case int_of_str out (c_value condition) of
        None \<Rightarrow> (Inr False, t)
      | Some v \<Rightarrow>
          if v \<le> 0 then (Inr False, t)
          else
            (case (if c_unit condition = Some ''months''
                   then timedelta_days (v * 30) else timedelta_days v) of
               Inl e \<Rightarrow> (Inl e, t)
             | Inr delta \<Rightarrow>
                 if c_predicate condition = ''less_than''
                   then (case date of
                           Naive d \<Rightarrow> (Inr (utcnow out t - d < delta), Suc t)
                         | Aware d \<Rightarrow> (Inr False, Suc t)
                         | No_Datetime \<Rightarrow> (Inr False, Suc t))
                 else if c_predicate condition = ''greater_than''
                   then (case date of
                           Naive d \<Rightarrow> (Inr (utcnow out t - d > delta), Suc t)
                         | Aware d \<Rightarrow> (Inr False, Suc t)
                         | No_Datetime \<Rightarrow> (Inr False, Suc t))
                 else (Inr False, t)))"

definition evaluate_condition ::
  "outside \<Rightarrow> rule_condition \<Rightarrow> email \<Rightarrow> nat \<Rightarrow> (error + bool) \<times> nat" where
  "evaluate_condition out condition em t =
     (if c_field condition = ''from''
        then (Inr (evaluate_string_condition out condition (from_address em)), t)
      else if c_field condition = ''subject''
        then (Inr (evaluate_string_condition out condition
                     (or_empty (subject em))), t)
      else if c_field condition = ''message''
        then (Inr (evaluate_string_condition out condition
                     (or_empty (content em))), t)
      else if c_field condition = ''received_date''
        then evaluate_date_condition out condition (received_date em) t
      else (Inr False, t))"

section \<open>Rule matcher\<close>

text \<open>
  The \<open>for condition in conditions\<close> loop with its accumulator \<open>results\<close>; an
  exception of the evaluator leaves the loop.
\<close>

fun evaluate_conditions ::
  "outside \<Rightarrow> rule_condition list \<Rightarrow> email \<Rightarrow> bool list \<Rightarrow> nat \<Rightarrow> (error + bool list) \<times> nat" where
  "evaluate_conditions out [] em results t = (Inr results, t)"
| "evaluate_conditions out (condition # conditions) em results t =
     (case evaluate_condition out condition em t of
        (Inl e, t') \<Rightarrow> (Inl e, t')
      | (Inr result, t') \<Rightarrow> evaluate_conditions out conditions em (results @ [result]) t')"

definition evaluate_rule ::
  "outside \<Rightarrow> rule \<Rightarrow> rule_condition list \<Rightarrow> email \<Rightarrow> nat \<Rightarrow> (error + bool) \<times> nat" where
  "evaluate_rule out rl conditions em t =
     (if conditions = [] then (Inr False, t)
      else
        (case evaluate_conditions out conditions em [] t of
           (Inl e, t') \<Rightarrow> (Inl e, t')
         | (Inr results, t') \<Rightarrow>
             if r_predicate rl = ''all''
               then (Inr (list_all (\<lambda>b. b) results), t')
               else (Inr (list_ex (\<lambda>b. b) results), t')))"

section \<open>Idempotency ledger\<close>

definition is_already_processed :: "world \<Rightarrow> string \<Rightarrow> string \<Rightarrow> bool \<times> string" where
  "is_already_processed w gid rule_identifier =
     (case filter (\<lambda>p. p_gmail_id p = gid) (processed_tbl w) of
        [] \<Rightarrow> (False, [])
      | p # ps \<Rightarrow>
          (case find (\<lambda>record. p_rule_identifier record = rule_identifier) (p # ps) of
             Some record \<Rightarrow> (True, p_rule_identifier record)
           | None \<Rightarrow> (False, p_rule_identifier (max_by p_processed_at p ps))))"

text \<open>The row that \<open>.first()\<close> returned is the one whose timestamp is assigned.\<close>

fun update_first :: "('a \<Rightarrow> bool) \<Rightarrow> ('a \<Rightarrow> 'a) \<Rightarrow> 'a list \<Rightarrow> 'a list" where
  "update_first P f [] = []"
| "update_first P f (x # xs) = (if P x then f x # xs else x # update_first P f xs)"

text \<open>
  Both branches read the clock once: the assignment in the update branch, the column
  default \<open>datetime.utcnow\<close> in the insert branch. The commit makes the row visible to
  every later query.
\<close>

definition mark_as_processed :: "outside \<Rightarrow> string \<Rightarrow> string \<Rightarrow> world \<Rightarrow> world" where
  "mark_as_processed out gid rule_identifier w =
     (case find (\<lambda>p. p_gmail_id p = gid \<and> p_rule_identifier p = rule_identifier)
             (processed_tbl w) of
        Some processed \<Rightarrow>
          w\<lparr>processed_tbl :=
              update_first (\<lambda>p. p_gmail_id p = gid \<and> p_rule_identifier p = rule_identifier)
                (\<lambda>p. p\<lparr>p_processed_at := utcnow out (ticks w)\<rparr>) (processed_tbl w),
            ticks := Suc (ticks w)\<rparr>
      | None \<Rightarrow>
          w\<lparr>processed_tbl :=
              processed_tbl w @
                [\<lparr>p_gmail_id = gid, p_rule_identifier = rule_identifier,
                  p_processed_at = utcnow out (ticks w)\<rparr>],
            ticks := Suc (ticks w)\<rparr>)"

section \<open>Rule engine: \<open>process_email\<close>\<close>

text \<open>
  The local state of one call of \<open>process_email\<close>: the message object it mutates, the
  local variable \<open>success\<close> (\<open>None\<close> while it is unbound; it is assigned only inside
  the action loop and lives on across the iterations of the rule loop), and the world.
\<close>

record frame =
  f_email :: email
  f_success :: "bool option"
  f_world :: world

text \<open>
  One iteration of \<open>for action in actions\<close>. \<open>success\<close> is set to False first; an
  action type outside the three known ones makes no call. \<open>db.commit()\<close> after a
  successful action changes none of the tables read here; the message object is taken
  to be stored already, so that the commit has no pending insert of it to flush.
\<close>

definition call_port :: "outside \<Rightarrow> port_call \<Rightarrow> world \<Rightarrow> bool \<times> world" where
  "call_port out call w =
     (gmail_client out (port_log w) call, w\<lparr>port_log := port_log w @ [call]\<rparr>)"

definition execute_action :: "outside \<Rightarrow> rule_action \<Rightarrow> frame \<Rightarrow> frame" where
  "execute_action out action fr =
     (if a_action_type action = ''mark_as_read'' then
        (case call_port out (Mark_As_Read (gmail_id (f_email fr))) (f_world fr) of
           (success, w') \<Rightarrow>
             \<lparr>f_email = (if success then (f_email fr)\<lparr>is_read := True\<rparr> else f_email fr),
              f_success = Some success, f_world = w'\<rparr>)
      else if a_action_type action = ''mark_as_unread'' then
        (case call_port out (Mark_As_Unread (gmail_id (f_email fr))) (f_world fr) of
           (success, w') \<Rightarrow>
             \<lparr>f_email = (if success then (f_email fr)\<lparr>is_read := False\<rparr> else f_email fr),
              f_success = Some success, f_world = w'\<rparr>)
      else if a_action_type action = ''move_message'' then
        (case call_port out (Move_Message (gmail_id (f_email fr)) (a_action_value action))
                (f_world fr) of
           (success, w') \<Rightarrow>
             \<lparr>f_email = (if success
                         then (f_email fr)\<lparr>current_label := a_action_value action\<rparr>
                         else f_email fr),
              f_success = Some success, f_world = w'\<rparr>)
      else fr\<lparr>f_success := Some False\<rparr>)"

fun run_actions :: "outside \<Rightarrow> rule_action list \<Rightarrow> frame \<Rightarrow> frame" where
  "run_actions out [] fr = fr"
| "run_actions out (action # actions) fr = run_actions out actions (execute_action out action fr)"

definition rule_conditions :: "world \<Rightarrow> rule \<Rightarrow> rule_condition list" where
  "rule_conditions w rl = filter (\<lambda>c. c_rule_id c = r_id rl) (conditions_tbl w)"

definition rule_actions :: "world \<Rightarrow> rule \<Rightarrow> rule_action list" where
  "rule_actions w rl = filter (\<lambda>a. a_rule_id a = r_id rl) (actions_tbl w)"

text \<open>
  The body of \<open>for rule in rules\<close>. The first component of the result is the exception
  that leaves \<open>process_email\<close>, if any; the frame is the state at that point.
\<close>

definition process_rule :: "outside \<Rightarrow> rule \<Rightarrow> frame \<Rightarrow> error option \<times> frame" where
  "process_rule out rl fr =
     (if fst (is_already_processed (f_world fr) (gmail_id (f_email fr)) (r_identifier rl))
      then (None, fr)
      else
        (case evaluate_rule out rl (rule_conditions (f_world fr) rl) (f_email fr)
                (ticks (f_world fr)) of
           (Inl e, t') \<Rightarrow> (Some e, fr\<lparr>f_world := (f_world fr)\<lparr>ticks := t'\<rparr>\<rparr>)
         | (Inr match, t') \<Rightarrow>
             if match then
               (let fr' = run_actions out (rule_actions (f_world fr) rl)
                            (fr\<lparr>f_world := (f_world fr)\<lparr>ticks := t'\<rparr>\<rparr>)
                in case f_success fr' of
                     None \<Rightarrow> (Some UnboundLocalError, fr')
                   | Some success \<Rightarrow>
                       if success
                       then (None, fr'\<lparr>f_world :=
                               mark_as_processed out (gmail_id (f_email fr')) (r_identifier rl)
                                 (f_world fr')\<rparr>)
                       else (None, fr'))
             else (None, fr\<lparr>f_world := (f_world fr)\<lparr>ticks := t'\<rparr>\<rparr>)))"

fun process_rules :: "outside \<Rightarrow> rule list \<Rightarrow> frame \<Rightarrow> error option \<times> frame" where
  "process_rules out [] fr = (None, fr)"
| "process_rules out (rl # rules) fr =
     (case process_rule out rl fr of
        (Some e, fr') \<Rightarrow> (Some e, fr')
      | (None, fr') \<Rightarrow> process_rules out rules fr')"

definition process_email :: "outside \<Rightarrow> email \<Rightarrow> world \<Rightarrow> error option \<times> frame" where
  "process_email out em w =
     process_rules out (filter r_active (rules_tbl w))
       \<lparr>f_email = em, f_success = None, f_world = w\<rparr>"

section \<open>Notions used to state the properties\<close>

text \<open>
  \<open>ticks_after\<close> is the number of clock readings after the conditions of a list have
  been evaluated in order, and \<open>result_at \<dots> i\<close> is what the evaluator returns for the
  \<open>i\<close>-th condition at the point where the loop reaches it.
\<close>

fun ticks_after :: "outside \<Rightarrow> rule_condition list \<Rightarrow> email \<Rightarrow> nat \<Rightarrow> nat" where
  "ticks_after out [] em t = t"
| "ticks_after out (c # cs) em t = ticks_after out cs em (snd (evaluate_condition out c em t))"

definition result_at :: "outside \<Rightarrow> rule_condition list \<Rightarrow> email \<Rightarrow> nat \<Rightarrow> nat \<Rightarrow> error + bool" where
  "result_at out cs em t i = fst (evaluate_condition out (cs ! i) em (ticks_after out (take i cs) em t))"


text \<open>
  The key of a ledger row, the rows of a table under one key and the rows under any
  other key, and a sequence of \<open>_mark_as_processed\<close> calls.
\<close>

definition ledger_key :: "processed_email \<Rightarrow> string \<times> string" where
  "ledger_key p = (p_gmail_id p, p_rule_identifier p)"

definition records_for :: "processed_email list \<Rightarrow> string \<Rightarrow> string \<Rightarrow> processed_email list" where
  "records_for tbl gid rid = filter (\<lambda>p. p_gmail_id p = gid \<and> p_rule_identifier p = rid) tbl"

definition other_records :: "processed_email list \<Rightarrow> string \<Rightarrow> string \<Rightarrow> processed_email list" where
  "other_records tbl gid rid = filter (\<lambda>p. \<not> (p_gmail_id p = gid \<and> p_rule_identifier p = rid)) tbl"

fun mark_sequence :: "outside \<Rightarrow> (string \<times> string) list \<Rightarrow> world \<Rightarrow> world" where
  "mark_sequence out [] w = w"
| "mark_sequence out ((gid, rid) # calls) w = mark_sequence out calls (mark_as_processed out gid rid w)"

text \<open>
  The call an action makes to the mailbox (none for an unknown action type), the calls
  of an action list in order, whether an action succeeds when the log of earlier calls
  is \<open>log\<close>, whether the last action of a list succeeds when the list is run from
  \<open>log\<close>, and the frame with which \<open>process_email\<close> starts.
\<close>

definition action_call :: "string \<Rightarrow> rule_action \<Rightarrow> port_call option" where
  "action_call gid action =
     (if a_action_type action = ''mark_as_read'' then Some (Mark_As_Read gid)
      else if a_action_type action = ''mark_as_unread'' then Some (Mark_As_Unread gid)
      else if a_action_type action = ''move_message''
        then Some (Move_Message gid (a_action_value action))
      else None)"

fun action_calls :: "string \<Rightarrow> rule_action list \<Rightarrow> port_call list" where
  "action_calls gid [] = []"
| "action_calls gid (action # actions) =
     (case action_call gid action of
        None \<Rightarrow> action_calls gid actions
      | Some call \<Rightarrow> call # action_calls gid actions)"

definition action_succeeded :: "outside \<Rightarrow> string \<Rightarrow> port_call list \<Rightarrow> rule_action \<Rightarrow> bool" where
  "action_succeeded out gid log action =
     (case action_call gid action of None \<Rightarrow> False | Some call \<Rightarrow> gmail_client out log call)"

definition last_action_succeeded ::
  "outside \<Rightarrow> string \<Rightarrow> port_call list \<Rightarrow> rule_action list \<Rightarrow> bool" where
  "last_action_succeeded out gid log actions =
     (actions \<noteq> [] \<and>
      action_succeeded out gid (log @ action_calls gid (butlast actions)) (last actions))"

definition init_frame :: "email \<Rightarrow> world \<Rightarrow> frame" where
  "init_frame em w = \<lparr>f_email = em, f_success = None, f_world = w\<rparr>"

section \<open>Example data\<close>

text \<open>
  The \<open>str.lower\<close> of the examples: it maps the ASCII capital letters to small
  ones and leaves every other byte as it is, which is \<open>str.lower\<close> on strings of
  ASCII characters.
\<close>

definition lower_char :: "char \<Rightarrow> char" where
  "lower_char c =
     (case map_of (zip ''ABCDEFGHIJKLMNOPQRSTUVWXYZ'' ''abcdefghijklmnopqrstuvwxyz'') c of
        None \<Rightarrow> c
      | Some d \<Rightarrow> d)"

definition ascii_lower :: "string \<Rightarrow> string" where
  "ascii_lower s = map lower_char s"

text \<open>
  The \<open>int\<close> of the examples: \<open>int(s)\<close> in base 10 for a string of ASCII
  characters, as the interpreter's integer parser reads it: blanks (tab, newline,
  vertical tab, form feed, carriage return, space) are skipped at both ends, one sign
  is allowed, then decimal digits with single underscores between digits; \<open>None\<close>
  is ValueError. The interpreter's limit on the number of digits is left out; the
  examples use short ASCII strings only.
\<close>

definition is_blank :: "char \<Rightarrow> bool" where
  "is_blank c = (of_char c \<in> set [9, 10, 11, 12, 13, 32 :: nat])"

definition is_digit :: "char \<Rightarrow> bool" where
  "is_digit c = ((48::nat) \<le> of_char c \<and> of_char c \<le> (57::nat))"

definition digit_val :: "char \<Rightarrow> int" where
  "digit_val c = int (of_char c) - 48"

definition skip_blanks :: "string \<Rightarrow> string" where
  "skip_blanks s = rev (dropWhile is_blank (rev (dropWhile is_blank s)))"

fun parse_digits :: "int \<Rightarrow> string \<Rightarrow> int option" where
  "parse_digits acc [] = Some acc"
| "parse_digits acc [c] = (if is_digit c then Some (acc * 10 + digit_val c) else None)"
| "parse_digits acc (c # d # ds) =
     (if is_digit c then parse_digits (acc * 10 + digit_val c) (d # ds)
      else if c = CHR ''_'' \<and> is_digit d then parse_digits (acc * 10 + digit_val d) ds
      else None)"

definition parse_unsigned :: "string \<Rightarrow> int option" where
  "parse_unsigned s =
     (case s of [] \<Rightarrow> None
      | c # cs \<Rightarrow> if is_digit c then parse_digits (digit_val c) cs else None)"

definition ascii_int :: "string \<Rightarrow> int option" where
  "ascii_int s =
     (case skip_blanks s of [] \<Rightarrow> None
      | c # cs \<Rightarrow>
          if c = CHR ''-'' then map_option uminus (parse_unsigned cs)
          else if c = CHR ''+'' then parse_unsigned cs
          else parse_unsigned (c # cs))"

definition example_outside :: outside where
  "example_outside =
     \<lparr>utcnow = (\<lambda>n. 8640000000000 + int n), int_of_str = ascii_int,
      str_lower = ascii_lower,
      gmail_client = (\<lambda>log call. True)\<rparr>"

definition example_email :: email where
  "example_email =
     \<lparr>gmail_id = ''m1'', from_address = ''noreply@zomato.com'',
      subject = Some ''Order confirmed'', content = None, received_date = Naive 0,
      is_read = True, current_label = Some ''INBOX''\<rparr>"

definition example_conditions :: "rule_condition list" where
  "example_conditions =
     [\<lparr>c_rule_id = 1, c_field = ''from'', c_predicate = ''contains'',
       c_value = ''ZOMATO.com'', c_unit = None\<rparr>,
      \<lparr>c_rule_id = 1, c_field = ''received_date'', c_predicate = ''less_than'',
       c_value = ''2'', c_unit = Some ''days''\<rparr>]"

definition example_large_date_conditions :: "rule_condition list" where
  "example_large_date_conditions =
     [\<lparr>c_rule_id = 1, c_field = ''from'', c_predicate = ''contains'',
       c_value = ''zomato'', c_unit = None\<rparr>,
      \<lparr>c_rule_id = 1, c_field = ''received_date'', c_predicate = ''greater_than'',
       c_value = ''1000000000'', c_unit = Some ''days''\<rparr>]"

definition example_rule :: rule where
  "example_rule =
     \<lparr>r_id = 1, r_name = ''Zomato'', r_identifier = ''R1'', r_predicate = ''any'',
      r_active = True\<rparr>"

definition example_date_condition :: "string \<Rightarrow> rule_condition" where
  "example_date_condition v =
     \<lparr>c_rule_id = 1, c_field = ''received_date'', c_predicate = ''greater_than'',
      c_value = v, c_unit = Some ''days''\<rparr>"


definition example_actions :: "rule_action list" where
  "example_actions =
     [\<lparr>a_rule_id = 1, a_action_type = ''mark_as_unread'', a_action_value = None\<rparr>]"

definition example_world :: world where
  "example_world =
     \<lparr>rules_tbl = [example_rule], conditions_tbl = example_conditions,
      actions_tbl = example_actions, processed_tbl = [], port_log = [], ticks = 0\<rparr>"

definition example_rule_2 :: rule where
  "example_rule_2 =
     \<lparr>r_id = 2, r_name = ''Zomato again'', r_identifier = ''R2'', r_predicate = ''all'',
      r_active = True\<rparr>"

definition example_condition_2 :: rule_condition where
  "example_condition_2 =
     \<lparr>c_rule_id = 2, c_field = ''from'', c_predicate = ''contains'', c_value = ''zomato'',
      c_unit = None\<rparr>"

definition example_two_actions :: "rule_action list" where
  "example_two_actions =
     [\<lparr>a_rule_id = 1, a_action_type = ''mark_as_read'', a_action_value = None\<rparr>,
      \<lparr>a_rule_id = 1, a_action_type = ''move_message'', a_action_value = Some ''Archive''\<rparr>]"

definition example_flaky_outside :: outside where
  "example_flaky_outside =
     \<lparr>utcnow = (\<lambda>n. 8640000000000 + int n), int_of_str = ascii_int,
      str_lower = ascii_lower,
      gmail_client = (\<lambda>log call. call \<noteq> Mark_As_Read ''m1'')\<rparr>"

definition example_failing_outside :: outside where
  "example_failing_outside =
     \<lparr>utcnow = (\<lambda>n. 8640000000000 + int n), int_of_str = ascii_int,
      str_lower = ascii_lower,
      gmail_client = (\<lambda>log call. False)\<rparr>"

definition example_world_two_rules :: world where
  "example_world_two_rules =
     example_world\<lparr>rules_tbl := [example_rule, example_rule_2],
                   conditions_tbl := example_conditions @ [example_condition_2]\<rparr>"

definition example_world_no_actions :: world where
  "example_world_no_actions =
     example_world\<lparr>rules_tbl := [example_rule_2], conditions_tbl := [example_condition_2]\<rparr>"

definition example_world_two_actions :: world where
  "example_world_two_actions = example_world\<lparr>actions_tbl := example_two_actions\<rparr>"

definition example_world_old_identifier :: world where
  "example_world_old_identifier =
     example_world\<lparr>processed_tbl :=
       [\<lparr>p_gmail_id = ''m1'', p_rule_identifier = ''R0'', p_processed_at = 5\<rparr>]\<rparr>"

section \<open>Properties of the matcher and the evaluator\<close>

lemmas example_defs =
  example_outside_def example_email_def example_conditions_def example_rule_def
lemmas py_defs = ascii_lower_def lower_char_def or_empty_def ascii_int_def skip_blanks_def is_blank_def is_digit_def
  digit_val_def parse_unsigned_def timedelta_days_def
lemmas eval_defs = evaluate_condition_def evaluate_string_condition_def evaluate_date_condition_def

lemma result_at_0: "result_at out (c # cs) em t 0 = fst (evaluate_condition out c em t)"
  by (simp add: result_at_def)

lemma result_at_Suc:
  "result_at out (c # cs) em t (Suc i) = result_at out cs em (snd (evaluate_condition out c em t)) i"
  by (simp add: result_at_def)

lemma evaluate_conditions_results:
  "\<forall>i<length cs. \<exists>b. result_at out cs em t i = Inr b \<Longrightarrow>
   evaluate_conditions out cs em results t =
     (Inr (results @ map (\<lambda>i. result_at out cs em t i = Inr True) [0..<length cs]),
      ticks_after out cs em t)"
proof (induction cs arbitrary: results t)
  case Nil
  then show ?case by simp
next
  case (Cons c cs)
  from Cons.prems have "\<exists>b. result_at out (c # cs) em t 0 = Inr b" by blast
  then obtain b t' where c: "evaluate_condition out c em t = (Inr b, t')"
    by (cases "evaluate_condition out c em t") (auto simp: result_at_0)
  have rest: "\<forall>i<length cs. \<exists>b. result_at out cs em t' i = Inr b"
  proof (intro allI impI)
    fix i assume "i < length cs"
    then have "\<exists>b. result_at out (c # cs) em t (Suc i) = Inr b" using Cons.prems by auto
    then show "\<exists>b. result_at out cs em t' i = Inr b" by (simp add: result_at_Suc c)
  qed
  have shift: "map (\<lambda>i. result_at out (c # cs) em t i = Inr True) [0..<Suc (length cs)] =
      b # map (\<lambda>i. result_at out cs em t' i = Inr True) [0..<length cs]"
  proof -
    have "[0..<Suc (length cs)] = 0 # map Suc [0..<length cs]"
      by (simp add: upt_conv_Cons map_Suc_upt del: upt_Suc)
    then show ?thesis by (simp add: result_at_0 result_at_Suc c comp_def del: upt_Suc)
  qed
  show ?case
    using Cons.IH[OF rest, of "results @ [b]"] by (simp add: c shift del: upt_Suc)
qed

lemma list_all_map_upt: "list_all (\<lambda>b. b) (map P [0..<n]) = (\<forall>i<n. P i)"
  by (auto simp: list_all_iff)

lemma list_ex_map_upt: "list_ex (\<lambda>b. b) (map P [0..<n]) = (\<exists>i<n. P i)"
  by (auto simp: list_ex_iff)


text \<open>
  C5. A rule with an empty condition list never matches, whatever its predicate
  string is (so for both \<open>all\<close> and \<open>any\<close>), for every message; no clock is read.
\<close>

theorem empty_conditions_never_match: "evaluate_rule out rl [] em t = (Inr False, t)"
  by (simp add: evaluate_rule_def)


text \<open>
  The matcher on a non-empty condition list whose evaluations all return: it returns
  the conjunction of the results of all conditions when the predicate is \<open>all\<close> and
  their disjunction when it is \<open>any\<close>; every condition is evaluated (the clock has
  been read by each of them in turn).
\<close>

theorem matcher_all_any:
  assumes "conditions \<noteq> []"
    and "\<forall>i<length conditions. \<exists>b. result_at out conditions em t i = Inr b"
  shows "(r_predicate rl = ''all'' \<longrightarrow>
            evaluate_rule out rl conditions em t =
              (Inr (\<forall>i<length conditions. result_at out conditions em t i = Inr True),
               ticks_after out conditions em t)) \<and>
         (r_predicate rl = ''any'' \<longrightarrow>
            evaluate_rule out rl conditions em t =
              (Inr (\<exists>i<length conditions. result_at out conditions em t i = Inr True),
               ticks_after out conditions em t))"
  using assms(1) evaluate_conditions_results[OF assms(2), of "[]"]
  by (simp add: evaluate_rule_def list_all_map_upt list_ex_map_upt del: upt_Suc)


theorem matcher_all_any_witness:
  "evaluate_rule example_outside (example_rule\<lparr>r_predicate := ''all''\<rparr>) example_conditions
     example_email 0 = (Inr False, 1) \<and>
   evaluate_rule example_outside example_rule example_conditions example_email 0 = (Inr True, 1)"
proof -
  have ne: "example_conditions \<noteq> []" by (simp add: example_conditions_def)
  have r0: "result_at example_outside example_conditions example_email 0 0 = Inr True"
    by (simp add: result_at_def example_defs eval_defs py_defs)
  have r1: "result_at example_outside example_conditions example_email 0 (Suc 0) = Inr False"
    by (simp add: result_at_def example_defs eval_defs py_defs)
  have len: "length example_conditions = Suc (Suc 0)" by (simp add: example_conditions_def)
  have tk: "ticks_after example_outside example_conditions example_email 0 = 1"
    by (simp add: example_defs eval_defs py_defs)
  have ok: "\<forall>i<length example_conditions.
              \<exists>b. result_at example_outside example_conditions example_email 0 i = Inr b"
    using r0 r1 by (auto simp: len All_less_Suc)
  have all_false: "\<not> (\<forall>i<length example_conditions.
              result_at example_outside example_conditions example_email 0 i = Inr True)"
    using r0 r1 by (simp add: len All_less_Suc)
  have any_true: "\<exists>i<length example_conditions.
              result_at example_outside example_conditions example_email 0 i = Inr True"
    using r0 r1 by (simp add: len Ex_less_Suc)
  from matcher_all_any[OF ne ok, of "example_rule\<lparr>r_predicate := ''all''\<rparr>"]
       matcher_all_any[OF ne ok, of example_rule]
  show ?thesis using all_false any_true by (simp add: tk example_rule_def)
qed


text \<open>
  C7. A \<open>received_date\<close> condition whose value \<open>int\<close> does not parse, or parses
  to an integer that is zero or negative, evaluates to False for every message
  (whatever its date attribute holds) and every predicate, without raising and without
  reading the clock. This holds for every behaviour of \<open>int\<close>.
\<close>

theorem date_guard:
  assumes "c_field condition = ''received_date''"
    and "int_of_str out (c_value condition) = None \<or>
         (\<exists>v. int_of_str out (c_value condition) = Some v \<and> v \<le> 0)"
  shows "evaluate_condition out condition em t = (Inr False, t)"
  using assms by (auto simp: evaluate_condition_def evaluate_date_condition_def)

theorem date_guard_witness:
  "int_of_str example_outside ''-1'' = Some (- 1) \<and>
   evaluate_condition example_outside (example_date_condition ''-1'') example_email 0 =
     (Inr False, 0) \<and>
   int_of_str example_outside ''soon'' = None \<and>
   evaluate_condition example_outside (example_date_condition ''soon'') example_email 0 =
     (Inr False, 0)"
proof -
  have f: "\<And>v. c_field (example_date_condition v) = ''received_date''"
    by (simp add: example_date_condition_def)
  have p1: "int_of_str example_outside ''-1'' = Some (- 1)"
    by (simp add: example_outside_def py_defs)
  have p2: "int_of_str example_outside ''soon'' = None"
    by (simp add: example_outside_def py_defs)
  have h1: "int_of_str example_outside (c_value (example_date_condition ''-1'')) = None \<or>
      (\<exists>v. int_of_str example_outside (c_value (example_date_condition ''-1'')) = Some v \<and>
           v \<le> 0)"
    by (simp add: example_date_condition_def p1)
  have h2: "int_of_str example_outside (c_value (example_date_condition ''soon'')) = None \<or>
      (\<exists>v. int_of_str example_outside (c_value (example_date_condition ''soon'')) = Some v \<and>
           v \<le> 0)"
    by (simp add: example_date_condition_def p2)
  from date_guard[OF f h1] date_guard[OF f h2] p1 p2 show ?thesis by simp
qed

text \<open>
  With a positive value the predicate decides for a naive date, and the TypeError of
  the subtraction gives False for a timezone-aware or missing one, after the clock has
  been read.
\<close>

lemma date_condition_by_kind_of_date:
  "evaluate_condition example_outside (example_date_condition ''1'') example_email 0 =
     (Inr True, 1) \<and>
   evaluate_condition example_outside (example_date_condition ''1'')
     (example_email\<lparr>received_date := Aware 0\<rparr>) 0 = (Inr False, 1) \<and>
   evaluate_condition example_outside (example_date_condition ''1'')
     (example_email\<lparr>received_date := No_Datetime\<rparr>) 0 = (Inr False, 1)"
  by (simp add: example_defs example_date_condition_def eval_defs py_defs)



text \<open>
  C6. The matcher does not return the conjunction or the disjunction of the condition
  results for every rule with a non-empty condition list. The date evaluator answers
  False for the errors it expects (\<open>except (ValueError, TypeError)\<close>), but a value of
  more than 999999999 days makes \<open>timedelta\<close> raise OverflowError, which is not
  caught: with a first condition on the sender that holds and a second condition
  \<open>received_date greater_than 1000000000 days\<close>, the first result is True and the
  matcher raises, for the predicate \<open>any\<close> (where the disjunction is True) as for
  \<open>all\<close>.
\<close>

theorem matcher_raises_on_large_date:
  "result_at example_outside example_large_date_conditions example_email 0 0 = Inr True \<and>
   result_at example_outside example_large_date_conditions example_email 0 1 =
     Inl OverflowError \<and>
   evaluate_rule example_outside example_rule example_large_date_conditions example_email 0 =
     (Inl OverflowError, 0) \<and>
   evaluate_rule example_outside (example_rule\<lparr>r_predicate := ''all''\<rparr>)
     example_large_date_conditions example_email 0 = (Inl OverflowError, 0)"
  by (simp add: evaluate_rule_def result_at_def example_large_date_conditions_def example_defs
      eval_defs py_defs)

section \<open>Properties of the ledger\<close>

lemma find_pair_None:
  "(find (\<lambda>p. p_gmail_id p = g \<and> p_rule_identifier p = r) tbl = None) = (records_for tbl g r = [])"
  by (induction tbl) (auto simp: records_for_def)

lemma keys_update_first:
  "(\<And>x. ledger_key (f x) = ledger_key x) \<Longrightarrow>
   map ledger_key (update_first P f tbl) = map ledger_key tbl"
  by (induction tbl) auto

lemma records_for_in_keys:
  "(records_for tbl g r = []) = ((g, r) \<notin> set (map ledger_key tbl))"
  by (induction tbl) (auto simp: records_for_def ledger_key_def)

lemma records_for_distinct:
  "distinct (map ledger_key tbl) \<Longrightarrow> length (records_for tbl g r) \<le> 1"
proof (induction tbl)
  case Nil
  then show ?case by (simp add: records_for_def)
next
  case (Cons p tbl)
  show ?case
  proof (cases "p_gmail_id p = g \<and> p_rule_identifier p = r")
    case True
    then have "(g, r) \<notin> set (map ledger_key tbl)"
      using Cons.prems by (auto simp: ledger_key_def)
    then have "records_for tbl g r = []" by (simp add: records_for_in_keys)
    then show ?thesis using True by (simp add: records_for_def)
  next
    case False
    then show ?thesis using Cons by (auto simp: records_for_def)
  qed
qed

lemma records_for_update_first:
  "distinct (map ledger_key tbl) \<Longrightarrow> records_for tbl g r \<noteq> [] \<Longrightarrow>
   records_for
     (update_first (\<lambda>p. p_gmail_id p = g \<and> p_rule_identifier p = r)
        (\<lambda>p. p\<lparr>p_processed_at := now\<rparr>) tbl) g r =
   [\<lparr>p_gmail_id = g, p_rule_identifier = r, p_processed_at = now\<rparr>]"
proof (induction tbl)
  case Nil
  then show ?case by (simp add: records_for_def)
next
  case (Cons p tbl)
  show ?case
  proof (cases "p_gmail_id p = g \<and> p_rule_identifier p = r")
    case True
    then have "(g, r) \<notin> set (map ledger_key tbl)"
      using Cons.prems by (auto simp: ledger_key_def)
    then have "records_for tbl g r = []" by (simp add: records_for_in_keys)
    then show ?thesis using True by (cases p) (simp add: records_for_def)
  next
    case False
    then show ?thesis using Cons by (auto simp: records_for_def)
  qed
qed

lemma other_records_update_first:
  "other_records
     (update_first (\<lambda>p. p_gmail_id p = g \<and> p_rule_identifier p = r)
        (\<lambda>p. p\<lparr>p_processed_at := now\<rparr>) tbl) g r = other_records tbl g r"
  by (induction tbl) (auto simp: other_records_def)

lemma mark_as_processed_insert:
  "records_for (processed_tbl w) g r = [] \<Longrightarrow>
   processed_tbl (mark_as_processed out g r w) =
     processed_tbl w @ [\<lparr>p_gmail_id = g, p_rule_identifier = r, p_processed_at = utcnow out (ticks w)\<rparr>]"
  using find_pair_None[of g r "processed_tbl w"] by (simp add: mark_as_processed_def)

lemma mark_as_processed_update:
  "records_for (processed_tbl w) g r \<noteq> [] \<Longrightarrow>
   processed_tbl (mark_as_processed out g r w) =
     update_first (\<lambda>p. p_gmail_id p = g \<and> p_rule_identifier p = r)
        (\<lambda>p. p\<lparr>p_processed_at := utcnow out (ticks w)\<rparr>) (processed_tbl w)"
  using find_pair_None[of g r "processed_tbl w"]
  by (auto simp: mark_as_processed_def split: option.splits)

lemma mark_as_processed_keys:
  "map ledger_key (processed_tbl (mark_as_processed out g r w)) =
     (if records_for (processed_tbl w) g r = [] then map ledger_key (processed_tbl w) @ [(g, r)]
      else map ledger_key (processed_tbl w))"
  by (simp add: mark_as_processed_insert mark_as_processed_update keys_update_first ledger_key_def)

lemma mark_as_processed_distinct:
  "distinct (map ledger_key (processed_tbl w)) \<Longrightarrow>
   distinct (map ledger_key (processed_tbl (mark_as_processed out g r w)))"
  by (simp add: mark_as_processed_keys records_for_in_keys)

lemma mark_sequence_distinct:
  "distinct (map ledger_key (processed_tbl w)) \<Longrightarrow>
   distinct (map ledger_key (processed_tbl (mark_sequence out calls w)))"
  by (induction out calls w rule: mark_sequence.induct) (simp_all add: mark_as_processed_distinct)

text \<open>
  C3. From a ledger with at most one row per (message, rule identifier) pair, every
  sequence of \<open>_mark_as_processed\<close> calls leaves at most one row per pair. A further
  call for a pair leaves exactly one row for it, stamped with the time of the call; the
  rows of all other pairs are as before; a pair that had a row keeps the table's keys
  (the row is refreshed, no second row appears), a pair without one gets one new row
  at the end.
\<close>

theorem mark_as_processed_upsert:
  assumes "distinct (map ledger_key (processed_tbl w0))"
    and "w = mark_sequence out calls w0"
    and "w' = mark_as_processed out gid rid w"
  shows "distinct (map ledger_key (processed_tbl w)) \<and>
         distinct (map ledger_key (processed_tbl w')) \<and>
         records_for (processed_tbl w') gid rid =
           [\<lparr>p_gmail_id = gid, p_rule_identifier = rid, p_processed_at = utcnow out (ticks w)\<rparr>] \<and>
         other_records (processed_tbl w') gid rid = other_records (processed_tbl w) gid rid \<and>
         (if records_for (processed_tbl w) gid rid = []
          then processed_tbl w' =
                 processed_tbl w @
                   [\<lparr>p_gmail_id = gid, p_rule_identifier = rid,
                     p_processed_at = utcnow out (ticks w)\<rparr>]
          else map ledger_key (processed_tbl w') = map ledger_key (processed_tbl w) \<and>
               length (processed_tbl w') = length (processed_tbl w))"
proof -
  have dw: "distinct (map ledger_key (processed_tbl w))"
    using assms(1,2) by (simp add: mark_sequence_distinct)
  have dw': "distinct (map ledger_key (processed_tbl w'))"
    using dw assms(3) by (simp add: mark_as_processed_distinct)
  have len: "length (processed_tbl w') =
           (if records_for (processed_tbl w) gid rid = [] then Suc (length (processed_tbl w))
            else length (processed_tbl w))"
    using arg_cong[OF mark_as_processed_keys[of out gid rid w], of length] assms(3)
    by (simp split: if_splits)
  show ?thesis
  proof (cases "records_for (processed_tbl w) gid rid = []")
    case True
    then show ?thesis
      using dw dw' len assms(3) mark_as_processed_insert[OF True, of out]
      by (simp add: records_for_def other_records_def)
  next
    case False
    then show ?thesis
      using dw dw' len assms(3) mark_as_processed_update[OF False, of out]
        mark_as_processed_keys[of out gid rid w]
      by (simp add: records_for_update_first other_records_update_first)
  qed
qed

theorem mark_as_processed_upsert_witness:
  "records_for
     (processed_tbl (mark_as_processed example_outside ''m1'' ''R1''
        (mark_sequence example_outside [(''m1'', ''R1''), (''m2'', ''R1'')] example_world)))
     ''m1'' ''R1'' =
     [\<lparr>p_gmail_id = ''m1'', p_rule_identifier = ''R1'', p_processed_at = 8640000000002\<rparr>] \<and>
   length (processed_tbl (mark_as_processed example_outside ''m1'' ''R1''
        (mark_sequence example_outside [(''m1'', ''R1''), (''m2'', ''R1'')] example_world))) = 2"
proof -
  have d: "distinct (map ledger_key (processed_tbl example_world))"
    by (simp add: example_world_def)
  have w: "mark_sequence example_outside [(''m1'', ''R1''), (''m2'', ''R1'')] example_world =
      example_world\<lparr>processed_tbl :=
        [\<lparr>p_gmail_id = ''m1'', p_rule_identifier = ''R1'', p_processed_at = 8640000000000\<rparr>,
         \<lparr>p_gmail_id = ''m2'', p_rule_identifier = ''R1'', p_processed_at = 8640000000001\<rparr>],
        ticks := 2\<rparr>"
    by (simp add: mark_as_processed_def example_world_def example_outside_def)
  have t: "ticks (mark_sequence example_outside [(''m1'', ''R1''), (''m2'', ''R1'')] example_world) = 2"
    by (simp add: w del: mark_sequence.simps)
  have r: "records_for (processed_tbl
         (mark_sequence example_outside [(''m1'', ''R1''), (''m2'', ''R1'')] example_world))
         ''m1'' ''R1'' \<noteq> []"
    by (simp add: w records_for_def del: mark_sequence.simps)
  have l: "length (processed_tbl
         (mark_sequence example_outside [(''m1'', ''R1''), (''m2'', ''R1'')] example_world)) = 2"
    by (simp add: w del: mark_sequence.simps)
  note th = mark_as_processed_upsert[OF d refl refl, of example_outside
         "[(''m1'', ''R1''), (''m2'', ''R1'')]" "''m1''" "''R1''"]
  have c: "records_for
     (processed_tbl (mark_as_processed example_outside ''m1'' ''R1''
        (mark_sequence example_outside [(''m1'', ''R1''), (''m2'', ''R1'')] example_world)))
     ''m1'' ''R1'' =
     [\<lparr>p_gmail_id = ''m1'', p_rule_identifier = ''R1'',
       p_processed_at = utcnow example_outside 2\<rparr>]"
    using th[THEN conjunct2, THEN conjunct2, THEN conjunct1] unfolding t .
  have e: "length (processed_tbl (mark_as_processed example_outside ''m1'' ''R1''
        (mark_sequence example_outside [(''m1'', ''R1''), (''m2'', ''R1'')] example_world))) = 2"
    using th[THEN conjunct2, THEN conjunct2, THEN conjunct2, THEN conjunct2] r l
    by (simp del: mark_sequence.simps)
  have u: "utcnow example_outside 2 = 8640000000002" by (simp add: example_outside_def)
  show ?thesis using c e unfolding u by (intro conjI)
qed

section \<open>Properties of the engine\<close>

lemmas world_defs = example_world_def example_actions_def example_rule_2_def
  example_condition_2_def example_two_actions_def example_flaky_outside_def
  example_failing_outside_def example_world_two_rules_def example_world_no_actions_def
  example_world_two_actions_def example_world_old_identifier_def
lemmas engine_defs = process_email_def process_rule_def is_already_processed_def
  rule_conditions_def rule_actions_def evaluate_rule_def execute_action_def call_port_def
  mark_as_processed_def process_rules.simps(2) Let_def init_frame_def

lemma world_log_id [simp]: "w\<lparr>port_log := port_log w\<rparr> = (w::world)"
  by simp

lemma execute_action_world:
  "f_world (execute_action out a fr) =
     (f_world fr)\<lparr>port_log := port_log (f_world fr) @
        (case action_call (gmail_id (f_email fr)) a of None \<Rightarrow> [] | Some c \<Rightarrow> [c])\<rparr>"
  by (simp add: execute_action_def action_call_def call_port_def)

lemma execute_action_gid:
  "gmail_id (f_email (execute_action out a fr)) = gmail_id (f_email fr)"
  by (simp add: execute_action_def call_port_def)

lemma execute_action_success:
  "f_success (execute_action out a fr) =
     Some (action_succeeded out (gmail_id (f_email fr)) (port_log (f_world fr)) a)"
  by (simp add: execute_action_def action_succeeded_def action_call_def call_port_def)

lemma execute_action_failed:
  "\<not> action_succeeded out (gmail_id (f_email fr)) (port_log (f_world fr)) a \<Longrightarrow>
   f_email (execute_action out a fr) = f_email fr"
  by (auto simp: execute_action_def action_succeeded_def action_call_def call_port_def)

lemma action_calls_append:
  "action_calls gid (xs @ ys) = action_calls gid xs @ action_calls gid ys"
  by (induction xs) (auto split: option.splits)

lemma run_actions_gid:
  "gmail_id (f_email (run_actions out actions fr)) = gmail_id (f_email fr)"
  by (induction actions arbitrary: fr) (simp_all add: execute_action_gid)

lemma run_actions_world:
  "f_world (run_actions out actions fr) =
     (f_world fr)\<lparr>port_log := port_log (f_world fr) @ action_calls (gmail_id (f_email fr)) actions\<rparr>"
proof (induction actions arbitrary: fr)
  case Nil
  show ?case by simp
next
  case (Cons a actions)
  show ?case
    by (simp add: Cons.IH execute_action_world execute_action_gid split: option.splits)
qed

lemma run_actions_append:
  "run_actions out (xs @ ys) fr = run_actions out ys (run_actions out xs fr)"
  by (induction xs arbitrary: fr) simp_all

lemma run_actions_success:
  assumes "actions \<noteq> []"
  shows "f_success (run_actions out actions fr) =
     Some (last_action_succeeded out (gmail_id (f_email fr)) (port_log (f_world fr)) actions)"
proof -
  from assms have split: "actions = butlast actions @ [last actions]" by simp
  have "f_success (run_actions out actions fr) =
        f_success (execute_action out (last actions) (run_actions out (butlast actions) fr))"
    by (subst split) (simp add: run_actions_append)
  then show ?thesis
    using assms
    by (simp add: execute_action_success run_actions_gid run_actions_world
        last_action_succeeded_def)
qed

lemma find_filter_None: "(find P xs = None) = (filter P xs = [])"
  by (induction xs) auto

lemma is_already_processed_fst:
  "fst (is_already_processed w g r) = (records_for (processed_tbl w) g r \<noteq> [])"
proof -
  have rf: "records_for (processed_tbl w) g r =
        filter (\<lambda>p. p_rule_identifier p = r) (filter (\<lambda>p. p_gmail_id p = g) (processed_tbl w))"
    by (simp add: records_for_def conj_commute)
  show ?thesis
  proof (cases "filter (\<lambda>p. p_gmail_id p = g) (processed_tbl w)")
    case Nil
    then show ?thesis by (simp add: is_already_processed_def rf)
  next
    case (Cons p ps)
    show ?thesis
    proof (cases "find (\<lambda>record. p_rule_identifier record = r) (p # ps)")
      case None
      then have "filter (\<lambda>p. p_rule_identifier p = r) (p # ps) = []"
        by (simp only: find_filter_None)
      then show ?thesis
        unfolding is_already_processed_def rf Cons using None by simp
    next
      case (Some q)
      then have "find (\<lambda>record. p_rule_identifier record = r) (p # ps) \<noteq> None" by simp
      then have "filter (\<lambda>p. p_rule_identifier p = r) (p # ps) \<noteq> []"
        by (simp only: find_filter_None not_False_eq_True)
      then show ?thesis
        unfolding is_already_processed_def rf Cons using Some by simp
    qed
  qed
qed

lemma records_for_update_first_other:
  "(g', r') \<noteq> (g, r) \<Longrightarrow>
   records_for
     (update_first (\<lambda>p. p_gmail_id p = g \<and> p_rule_identifier p = r)
        (\<lambda>p. p\<lparr>p_processed_at := now\<rparr>) tbl) g' r' = records_for tbl g' r'"
  by (induction tbl) (auto simp: records_for_def)

lemma records_for_mark_other:
  assumes "(g', r') \<noteq> (g, r)"
  shows "records_for (processed_tbl (mark_as_processed out g r w)) g' r' =
         records_for (processed_tbl w) g' r'"
proof (cases "records_for (processed_tbl w) g r = []")
  case True
  show ?thesis
    using assms by (auto simp: mark_as_processed_insert[OF True] records_for_def)
next
  case False
  show ?thesis
    using assms
    by (simp add: mark_as_processed_update[OF False] records_for_update_first_other)
qed

lemma mark_as_processed_tables:
  "rules_tbl (mark_as_processed out g r w) = rules_tbl w"
  "conditions_tbl (mark_as_processed out g r w) = conditions_tbl w"
  "actions_tbl (mark_as_processed out g r w) = actions_tbl w"
  "port_log (mark_as_processed out g r w) = port_log w"
  "ticks (mark_as_processed out g r w) = Suc (ticks w)"
  by (simp_all add: mark_as_processed_def split: option.splits)

lemma process_rule_skip:
  "records_for (processed_tbl (f_world fr)) (gmail_id (f_email fr)) (r_identifier rl) \<noteq> [] \<Longrightarrow>
   process_rule out rl fr = (None, fr)"
  by (simp add: process_rule_def is_already_processed_fst)

lemma process_rule_gid:
  "gmail_id (f_email (snd (process_rule out rl fr))) = gmail_id (f_email fr)"
  by (simp add: process_rule_def Let_def run_actions_gid
      split: prod.splits sum.splits option.splits)

lemma process_rule_tables:
  "rules_tbl (f_world (snd (process_rule out rl fr))) = rules_tbl (f_world fr)"
  "conditions_tbl (f_world (snd (process_rule out rl fr))) = conditions_tbl (f_world fr)"
  "actions_tbl (f_world (snd (process_rule out rl fr))) = actions_tbl (f_world fr)"
  by (simp_all add: process_rule_def Let_def run_actions_world mark_as_processed_tables
      split: prod.splits sum.splits option.splits)

lemma process_rule_table:
  "processed_tbl (f_world (snd (process_rule out rl fr))) = processed_tbl (f_world fr) \<or>
   (\<exists>w'. processed_tbl w' = processed_tbl (f_world fr) \<and>
      processed_tbl (f_world (snd (process_rule out rl fr))) =
        processed_tbl (mark_as_processed out (gmail_id (f_email fr)) (r_identifier rl) w'))"
proof (cases "fst (is_already_processed (f_world fr) (gmail_id (f_email fr)) (r_identifier rl))")
  case True
  then show ?thesis by (simp add: process_rule_def)
next
  case False
  obtain res t' where ev:
    "evaluate_rule out rl (rule_conditions (f_world fr) rl) (f_email fr) (ticks (f_world fr)) =
       (res, t')"
    by (cases "evaluate_rule out rl (rule_conditions (f_world fr) rl) (f_email fr)
                 (ticks (f_world fr))")
  define fr' where
    "fr' = run_actions out (rule_actions (f_world fr) rl) (fr\<lparr>f_world := (f_world fr)\<lparr>ticks := t'\<rparr>\<rparr>)"
  have tbl: "processed_tbl (f_world fr') = processed_tbl (f_world fr)"
    by (simp add: fr'_def run_actions_world)
  have gid: "gmail_id (f_email fr') = gmail_id (f_email fr)"
    by (simp add: fr'_def run_actions_gid)
  show ?thesis
  proof (cases res)
    case (Inl e)
    then show ?thesis using False ev by (simp add: process_rule_def)
  next
    case (Inr match)
    show ?thesis
    proof (cases match)
      case False
      then show ?thesis using \<open>\<not> fst _\<close> ev Inr by (simp add: process_rule_def)
    next
      case True
      show ?thesis
      proof (cases "f_success fr'")
        case None
        then show ?thesis
          using \<open>\<not> fst _\<close> ev Inr True tbl
          by (simp add: process_rule_def Let_def fr'_def[symmetric])
      next
        case (Some ok)
        show ?thesis
        proof (cases ok)
          case True
          have "processed_tbl (f_world (snd (process_rule out rl fr))) =
                processed_tbl (mark_as_processed out (gmail_id (f_email fr)) (r_identifier rl)
                  (f_world fr'))"
            using \<open>\<not> fst _\<close> ev Inr \<open>match\<close> Some True gid
            by (simp add: process_rule_def Let_def fr'_def[symmetric])
          with tbl show ?thesis by blast
        next
          case False
          then show ?thesis
            using \<open>\<not> fst _\<close> ev Inr \<open>match\<close> Some tbl
            by (simp add: process_rule_def Let_def fr'_def[symmetric])
        qed
      qed
    qed
  qed
qed

lemma process_rule_other:
  assumes "(g, r) \<noteq> (gmail_id (f_email fr), r_identifier rl)"
  shows "records_for (processed_tbl (f_world (snd (process_rule out rl fr)))) g r =
         records_for (processed_tbl (f_world fr)) g r"
  using process_rule_table[of out rl fr] records_for_mark_other[OF assms]
  by (metis records_for_def)

lemma process_rule_keep:
  assumes "records_for (processed_tbl (f_world fr)) g r \<noteq> []"
  shows "records_for (processed_tbl (f_world (snd (process_rule out rl fr)))) g r =
         records_for (processed_tbl (f_world fr)) g r"
proof (cases "(g, r) = (gmail_id (f_email fr), r_identifier rl)")
  case True
  then show ?thesis using assms by (simp add: process_rule_skip)
next
  case False
  then show ?thesis by (rule process_rule_other)
qed

lemma process_rule_distinct:
  assumes "distinct (map ledger_key (processed_tbl (f_world fr)))"
  shows "distinct (map ledger_key (processed_tbl (f_world (snd (process_rule out rl fr)))))"
  using process_rule_table[of out rl fr] assms mark_as_processed_distinct
  by metis

lemma process_rules_append:
  "process_rules out (xs @ ys) fr =
     (case process_rules out xs fr of
        (Some e, fr') \<Rightarrow> (Some e, fr')
      | (None, fr') \<Rightarrow> process_rules out ys fr')"
  by (induction xs arbitrary: fr) (auto split: prod.splits option.splits)

lemma process_rules_Cons:
  "process_rules out (rl # rules) fr =
     (if fst (process_rule out rl fr) = None
      then process_rules out rules (snd (process_rule out rl fr))
      else process_rule out rl fr)"
  by (cases "process_rule out rl fr") (auto split: option.splits)

declare process_rules.simps(2) [simp del]

lemma process_rules_gid:
  "gmail_id (f_email (snd (process_rules out rules fr))) = gmail_id (f_email fr)"
  by (induction rules arbitrary: fr) (simp_all add: process_rules_Cons process_rule_gid)

lemma process_rules_tables:
  "rules_tbl (f_world (snd (process_rules out rules fr))) = rules_tbl (f_world fr)"
  by (induction rules arbitrary: fr) (simp_all add: process_rules_Cons process_rule_tables)

lemma process_rules_keep:
  "records_for (processed_tbl (f_world fr)) g r \<noteq> [] \<Longrightarrow>
   records_for (processed_tbl (f_world (snd (process_rules out rules fr)))) g r =
   records_for (processed_tbl (f_world fr)) g r"
proof (induction rules arbitrary: fr)
  case Nil
  show ?case by simp
next
  case (Cons rl rules)
  have k: "records_for (processed_tbl (f_world (snd (process_rule out rl fr)))) g r =
           records_for (processed_tbl (f_world fr)) g r"
    by (rule process_rule_keep[OF Cons.prems])
  show ?case
  proof (cases "fst (process_rule out rl fr) = None")
    case True
    then show ?thesis using Cons.IH[of "snd (process_rule out rl fr)"] k Cons.prems
      by (simp add: process_rules_Cons)
  next
    case False
    then show ?thesis using k by (auto simp: process_rules_Cons)
  qed
qed

lemma process_rules_other:
  "r \<notin> set (map r_identifier rules) \<Longrightarrow>
   records_for (processed_tbl (f_world (snd (process_rules out rules fr)))) g r =
   records_for (processed_tbl (f_world fr)) g r"
proof (induction rules arbitrary: fr)
  case Nil
  show ?case by simp
next
  case (Cons rl rules)
  from Cons.prems have ne: "(g, r) \<noteq> (gmail_id (f_email fr), r_identifier rl)" by auto
  have k: "records_for (processed_tbl (f_world (snd (process_rule out rl fr)))) g r =
           records_for (processed_tbl (f_world fr)) g r"
    by (rule process_rule_other[OF ne])
  from Cons.prems have rest: "r \<notin> set (map r_identifier rules)" by simp
  show ?case
    using Cons.IH[OF rest, of "snd (process_rule out rl fr)"] k
    by (simp add: process_rules_Cons)
qed

lemma process_rules_skip:
  "records_for (processed_tbl (f_world fr)) (gmail_id (f_email fr)) (r_identifier rl) \<noteq> [] \<Longrightarrow>
   process_rules out (pre @ rl # post) fr = process_rules out (pre @ post) fr"
proof (induction pre arbitrary: fr)
  case Nil
  then show ?case by (simp add: process_rules_Cons process_rule_skip)
next
  case (Cons x pre)
  let ?fr' = "snd (process_rule out x fr)"
  have "records_for (processed_tbl (f_world ?fr')) (gmail_id (f_email ?fr')) (r_identifier rl) \<noteq> []"
    using Cons.prems
    by (simp add: process_rule_gid process_rule_keep)
  from Cons.IH[OF this] show ?case
    by (simp add: process_rules_Cons)
qed

lemma process_rule_matched:
  assumes fresh: "\<not> fst (is_already_processed (f_world fr) (gmail_id (f_email fr)) (r_identifier rl))"
    and matched: "evaluate_rule out rl (rule_conditions (f_world fr) rl) (f_email fr)
                    (ticks (f_world fr)) = (Inr True, t')"
    and actions: "rule_actions (f_world fr) rl \<noteq> []"
  shows "process_rule out rl fr =
     (None,
      let fr' = run_actions out (rule_actions (f_world fr) rl)
                  (fr\<lparr>f_world := (f_world fr)\<lparr>ticks := t'\<rparr>\<rparr>)
      in if last_action_succeeded out (gmail_id (f_email fr)) (port_log (f_world fr))
              (rule_actions (f_world fr) rl)
         then fr'\<lparr>f_world := mark_as_processed out (gmail_id (f_email fr)) (r_identifier rl)
                               (f_world fr')\<rparr>
         else fr')"
  using fresh matched run_actions_success[OF actions, of out "fr\<lparr>f_world := (f_world fr)\<lparr>ticks := t'\<rparr>\<rparr>"]
  by (simp add: process_rule_def Let_def run_actions_gid)

lemma process_rule_matched_table:
  assumes fresh: "\<not> fst (is_already_processed (f_world fr) (gmail_id (f_email fr)) (r_identifier rl))"
    and matched: "evaluate_rule out rl (rule_conditions (f_world fr) rl) (f_email fr)
                    (ticks (f_world fr)) = (Inr True, t')"
    and actions: "rule_actions (f_world fr) rl \<noteq> []"
  shows "processed_tbl (f_world (snd (process_rule out rl fr))) =
     (if last_action_succeeded out (gmail_id (f_email fr)) (port_log (f_world fr))
              (rule_actions (f_world fr) rl)
      then processed_tbl (f_world fr) @
             [\<lparr>p_gmail_id = gmail_id (f_email fr), p_rule_identifier = r_identifier rl,
               p_processed_at = utcnow out t'\<rparr>]
      else processed_tbl (f_world fr))"
proof -
  let ?fr' = "run_actions out (rule_actions (f_world fr) rl)
                (fr\<lparr>f_world := (f_world fr)\<lparr>ticks := t'\<rparr>\<rparr>)"
  have none: "records_for (processed_tbl (f_world ?fr')) (gmail_id (f_email fr)) (r_identifier rl) = []"
    using fresh by (simp add: is_already_processed_fst run_actions_world)
  have tk: "ticks (f_world ?fr') = t'" by (simp add: run_actions_world)
  have tb: "processed_tbl (f_world ?fr') = processed_tbl (f_world fr)"
    by (simp add: run_actions_world)
  show ?thesis
    using mark_as_processed_insert[OF none, of out] tk tb
    by (simp add: process_rule_matched[OF assms] Let_def)
qed

lemma process_email_reach:
  assumes "filter r_active (rules_tbl w) = pre @ rl # post"
    and "process_rules out pre (init_frame em w) = (None, fr)"
  shows "process_email out em w = process_rules out (rl # post) fr"
  using assms by (simp add: process_email_def init_frame_def[symmetric] process_rules_append)

lemma reach_gid:
  assumes "process_rules out pre (init_frame em w) = (x, fr)"
  shows "gmail_id (f_email fr) = gmail_id em"
  using process_rules_gid[of out pre "init_frame em w"] assms by (simp add: init_frame_def)

lemma max_by_in: "max_by f b xs \<in> set (b # xs)"
  by (induction xs arbitrary: b) (simp, force)

lemma max_by_ge: "x \<in> set (b # xs) \<Longrightarrow> f x \<le> f (max_by f b xs)"
proof (induction xs arbitrary: b x)
  case Nil
  then show ?case by simp
next
  case (Cons y ys)
  let ?b = "if f b < f y then y else b"
  have step: "\<And>z. z \<in> set (?b # ys) \<Longrightarrow> f z \<le> f (max_by f ?b ys)" by (rule Cons.IH)
  have b': "f ?b \<le> f (max_by f ?b ys)" by (rule step) simp
  from Cons.prems consider "x = b" | "x = y" | "x \<in> set ys" by auto
  then show ?case
  proof cases
    case 1
    then show ?thesis using b' by (simp split: if_splits)
  next
    case 2
    then show ?thesis using b' by (simp split: if_splits)
  next
    case 3
    then have "x \<in> set (?b # ys)" by simp
    from step[OF this] show ?thesis by simp
  qed
qed

lemma is_already_processed_other:
  assumes none: "records_for (processed_tbl w) g r = []"
    and some: "filter (\<lambda>p. p_gmail_id p = g) (processed_tbl w) \<noteq> []"
  shows "\<exists>p\<in>set (processed_tbl w). p_gmail_id p = g \<and>
           is_already_processed w g r = (False, p_rule_identifier p) \<and>
           (\<forall>q\<in>set (processed_tbl w). p_gmail_id q = g \<longrightarrow> p_processed_at q \<le> p_processed_at p)"
proof -
  from some obtain p ps where f: "filter (\<lambda>p. p_gmail_id p = g) (processed_tbl w) = p # ps"
    by (cases "filter (\<lambda>p. p_gmail_id p = g) (processed_tbl w)") auto
  have rf: "records_for (processed_tbl w) g r =
        filter (\<lambda>p. p_rule_identifier p = r) (filter (\<lambda>p. p_gmail_id p = g) (processed_tbl w))"
    by (simp add: records_for_def conj_commute)
  from none have "find (\<lambda>record. p_rule_identifier record = r) (p # ps) = None"
    unfolding rf f by (simp only: find_filter_None)
  then have res: "is_already_processed w g r =
      (False, p_rule_identifier (max_by p_processed_at p ps))"
    unfolding is_already_processed_def f by simp
  let ?m = "max_by p_processed_at p ps"
  have "?m \<in> set (p # ps)" by (rule max_by_in)
  then have m_in: "?m \<in> set (filter (\<lambda>p. p_gmail_id p = g) (processed_tbl w))"
    by (simp only: f)
  have ge: "\<forall>q\<in>set (processed_tbl w). p_gmail_id q = g \<longrightarrow> p_processed_at q \<le> p_processed_at ?m"
  proof (intro ballI impI)
    fix q assume "q \<in> set (processed_tbl w)" "p_gmail_id q = g"
    then have "q \<in> set (filter (\<lambda>p. p_gmail_id p = g) (processed_tbl w))" by simp
    then have "q \<in> set (p # ps)" by (simp only: f)
    then show "p_processed_at q \<le> p_processed_at ?m" by (rule max_by_ge)
  qed
  from m_in have "?m \<in> set (processed_tbl w)" "p_gmail_id ?m = g" by simp_all
  with res ge show ?thesis by blast
qed

text \<open>
  C2. When the pass over the active rules reaches a rule that is not yet in the ledger
  for the message, the rule matches and its action list is not empty, the iteration
  appends one row for (message, rule identifier) if the last action of the list
  succeeded and leaves the ledger as it was otherwise, whatever the earlier actions
  returned; with rule identifiers unique among the rules that follow, this row is also
  what the ledger holds for the pair when \<open>process_email\<close> ends.
\<close>

theorem processed_iff_last_action_succeeded:
  assumes act: "filter r_active (rules_tbl w) = pre @ rl # post"
    and uniq: "r_identifier rl \<notin> set (map r_identifier post)"
    and reach: "process_rules out pre (init_frame em w) = (None, fr)"
    and fresh: "\<not> fst (is_already_processed (f_world fr) (gmail_id (f_email fr)) (r_identifier rl))"
    and matched: "evaluate_rule out rl (rule_conditions (f_world fr) rl) (f_email fr)
                    (ticks (f_world fr)) = (Inr True, t')"
    and actions: "rule_actions (f_world fr) rl \<noteq> []"
  shows "processed_tbl (f_world (snd (process_rule out rl fr))) =
           (if last_action_succeeded out (gmail_id em) (port_log (f_world fr))
                 (rule_actions (f_world fr) rl)
            then processed_tbl (f_world fr) @
                   [\<lparr>p_gmail_id = gmail_id em, p_rule_identifier = r_identifier rl,
                     p_processed_at = utcnow out t'\<rparr>]
            else processed_tbl (f_world fr)) \<and>
         records_for (processed_tbl (f_world (snd (process_email out em w))))
             (gmail_id em) (r_identifier rl) =
           (if last_action_succeeded out (gmail_id em) (port_log (f_world fr))
                 (rule_actions (f_world fr) rl)
            then [\<lparr>p_gmail_id = gmail_id em, p_rule_identifier = r_identifier rl,
                    p_processed_at = utcnow out t'\<rparr>]
            else [])"
proof -
  have gid: "gmail_id (f_email fr) = gmail_id em" by (rule reach_gid[OF reach])
  have none: "records_for (processed_tbl (f_world fr)) (gmail_id em) (r_identifier rl) = []"
    using fresh by (simp add: is_already_processed_fst gid)
  have step: "processed_tbl (f_world (snd (process_rule out rl fr))) =
           (if last_action_succeeded out (gmail_id em) (port_log (f_world fr))
                 (rule_actions (f_world fr) rl)
            then processed_tbl (f_world fr) @
                   [\<lparr>p_gmail_id = gmail_id em, p_rule_identifier = r_identifier rl,
                     p_processed_at = utcnow out t'\<rparr>]
            else processed_tbl (f_world fr))"
    using process_rule_matched_table[OF fresh matched actions] by (simp add: gid)
  have ok: "fst (process_rule out rl fr) = None"
    by (simp add: process_rule_matched[OF fresh matched actions])
  have "process_email out em w = process_rules out post (snd (process_rule out rl fr))"
    by (simp add: process_email_reach[OF act reach] process_rules_Cons ok)
  then have "records_for (processed_tbl (f_world (snd (process_email out em w))))
             (gmail_id em) (r_identifier rl) =
        records_for (processed_tbl (f_world (snd (process_rule out rl fr))))
             (gmail_id em) (r_identifier rl)"
    by (simp add: process_rules_other[OF uniq])
  also have "\<dots> = (if last_action_succeeded out (gmail_id em) (port_log (f_world fr))
                 (rule_actions (f_world fr) rl)
            then [\<lparr>p_gmail_id = gmail_id em, p_rule_identifier = r_identifier rl,
                    p_processed_at = utcnow out t'\<rparr>]
            else [])"
    using none by (simp add: step) (simp add: records_for_def)
  finally show ?thesis using step by simp
qed

text \<open>
  C8. In a matched rule, an action whose call to the mailbox returns False leaves the
  message object as it was and records a failure; the iteration of the rule does not
  raise and the pass goes on with the next rule; the calls made to the mailbox are
  those of all actions of the rule, the later ones included, in declared order.
\<close>

theorem failed_action_does_not_stop:
  assumes fresh: "\<not> fst (is_already_processed (f_world fr) (gmail_id (f_email fr)) (r_identifier rl))"
    and matched: "evaluate_rule out rl (rule_conditions (f_world fr) rl) (f_email fr)
                    (ticks (f_world fr)) = (Inr True, t')"
    and actions: "rule_actions (f_world fr) rl = before @ action # after"
    and call: "action_call (gmail_id (f_email fr)) action = Some call"
    and failed: "\<not> gmail_client out
                     (port_log (f_world fr) @ action_calls (gmail_id (f_email fr)) before) call"
    and at_action: "fr1 = run_actions out before (fr\<lparr>f_world := (f_world fr)\<lparr>ticks := t'\<rparr>\<rparr>)"
  shows "fst (process_rule out rl fr) = None \<and>
         process_rules out (rl # rules) fr = process_rules out rules (snd (process_rule out rl fr)) \<and>
         f_email (execute_action out action fr1) = f_email fr1 \<and>
         f_success (execute_action out action fr1) = Some False \<and>
         port_log (f_world (snd (process_rule out rl fr))) =
           port_log (f_world fr) @ action_calls (gmail_id (f_email fr)) before @
             call # action_calls (gmail_id (f_email fr)) after"
proof -
  have ne: "rule_actions (f_world fr) rl \<noteq> []" by (simp add: actions)
  have ok: "fst (process_rule out rl fr) = None"
    by (simp add: process_rule_matched[OF fresh matched ne])
  have gid1: "gmail_id (f_email fr1) = gmail_id (f_email fr)"
    by (simp add: at_action run_actions_gid)
  have log1: "port_log (f_world fr1) =
        port_log (f_world fr) @ action_calls (gmail_id (f_email fr)) before"
    by (simp add: at_action run_actions_world)
  have nosucc: "\<not> action_succeeded out (gmail_id (f_email fr1)) (port_log (f_world fr1)) action"
    using failed by (simp add: action_succeeded_def gid1 log1 call)
  have log: "port_log (f_world (snd (process_rule out rl fr))) =
           port_log (f_world fr) @ action_calls (gmail_id (f_email fr)) before @
             call # action_calls (gmail_id (f_email fr)) after"
    by (simp add: process_rule_matched[OF fresh matched ne] Let_def run_actions_world
        mark_as_processed_tables actions action_calls_append call)
  show ?thesis
    using ok log nosucc execute_action_failed[OF nosucc]
    by (simp add: process_rules_Cons execute_action_success)
qed

text \<open>
  C9, amended. When the pass reaches a rule that is not yet in the ledger for the
  message, matches and has no action, and no action has run earlier in the same call
  (\<open>success\<close> is still unbound), \<open>process_email\<close> ends there with
  UnboundLocalError and the ledger has no row for the pair. The restriction is needed:
  after an earlier rule has run an action, \<open>success\<close> is bound, nothing is
  raised, and a successful earlier action even gets the rule marked, as the example
  with two rules shows.
\<close>

theorem unbound_success_raises:
  assumes act: "filter r_active (rules_tbl w) = pre @ rl # post"
    and reach: "process_rules out pre (init_frame em w) = (None, fr)"
    and unbound: "f_success fr = None"
    and fresh: "\<not> fst (is_already_processed (f_world fr) (gmail_id (f_email fr)) (r_identifier rl))"
    and matched: "evaluate_rule out rl (rule_conditions (f_world fr) rl) (f_email fr)
                    (ticks (f_world fr)) = (Inr True, t')"
    and no_actions: "rule_actions (f_world fr) rl = []"
  shows "process_email out em w =
           (Some UnboundLocalError, fr\<lparr>f_world := (f_world fr)\<lparr>ticks := t'\<rparr>\<rparr>) \<and>
         records_for (processed_tbl (f_world (snd (process_email out em w))))
           (gmail_id em) (r_identifier rl) = []"
proof -
  have gid: "gmail_id (f_email fr) = gmail_id em" by (rule reach_gid[OF reach])
  have none: "records_for (processed_tbl (f_world fr)) (gmail_id em) (r_identifier rl) = []"
    using fresh by (simp add: is_already_processed_fst gid)
  have step: "process_rule out rl fr =
      (Some UnboundLocalError, fr\<lparr>f_world := (f_world fr)\<lparr>ticks := t'\<rparr>\<rparr>)"
    using fresh matched no_actions unbound by (simp add: process_rule_def)
  have "process_email out em w =
      (Some UnboundLocalError, fr\<lparr>f_world := (f_world fr)\<lparr>ticks := t'\<rparr>\<rparr>)"
    by (simp add: process_email_reach[OF act reach] process_rules_Cons step)
  then show ?thesis using none by simp
qed

text \<open>
  C1. If in a first call of \<open>process_email\<close> the pass reaches an active rule that
  matches and whose last action succeeds, then in a second call for the same message,
  started in the world the first call left, the iteration of that rule returns at the
  ledger check with the frame unchanged (no condition evaluated, no clock read, no call
  to the mailbox, no ledger write): the whole second call equals the pass over the other
  rules alone, and at its end the ledger holds for the pair exactly the one row written
  by the first call.
\<close>

theorem second_pass_skips_rule:
  assumes act: "filter r_active (rules_tbl w) = pre @ rl # post"
    and reach: "process_rules out pre (init_frame em w) = (None, fr)"
    and fresh: "\<not> fst (is_already_processed (f_world fr) (gmail_id (f_email fr)) (r_identifier rl))"
    and matched: "evaluate_rule out rl (rule_conditions (f_world fr) rl) (f_email fr)
                    (ticks (f_world fr)) = (Inr True, t')"
    and succeeded: "last_action_succeeded out (gmail_id em) (port_log (f_world fr))
                      (rule_actions (f_world fr) rl)"
    and first: "w1 = f_world (snd (process_email out em w))"
    and same: "gmail_id em2 = gmail_id em"
    and at_rule: "fr2 = snd (process_rules out pre (init_frame em2 w1))"
  shows "process_rule out rl fr2 = (None, fr2) \<and>
         process_email out em2 w1 = process_rules out (pre @ post) (init_frame em2 w1) \<and>
         records_for (processed_tbl (f_world (snd (process_email out em2 w1))))
           (gmail_id em) (r_identifier rl) =
           [\<lparr>p_gmail_id = gmail_id em, p_rule_identifier = r_identifier rl,
             p_processed_at = utcnow out t'\<rparr>]"
proof -
  let ?new = "\<lparr>p_gmail_id = gmail_id em, p_rule_identifier = r_identifier rl,
               p_processed_at = utcnow out t'\<rparr>"
  have gid: "gmail_id (f_email fr) = gmail_id em" by (rule reach_gid[OF reach])
  have ne: "rule_actions (f_world fr) rl \<noteq> []"
    using succeeded by (auto simp: last_action_succeeded_def)
  have none: "records_for (processed_tbl (f_world fr)) (gmail_id em) (r_identifier rl) = []"
    using fresh by (simp add: is_already_processed_fst gid)
  have ok: "fst (process_rule out rl fr) = None"
    by (simp add: process_rule_matched[OF fresh matched ne])
  have "processed_tbl (f_world (snd (process_rule out rl fr))) =
          processed_tbl (f_world fr) @ [?new]"
    using process_rule_matched_table[OF fresh matched ne] succeeded by (simp add: gid)
  then have written: "records_for (processed_tbl (f_world (snd (process_rule out rl fr))))
          (gmail_id em) (r_identifier rl) = [?new]"
    using none by (simp add: records_for_def)
  have "process_email out em w = process_rules out post (snd (process_rule out rl fr))"
    by (simp add: process_email_reach[OF act reach] process_rules_Cons ok)
  then have w1_has: "records_for (processed_tbl w1) (gmail_id em) (r_identifier rl) = [?new]"
    using written by (simp add: first process_rules_keep)
  have "rules_tbl w1 = rules_tbl w"
    using process_rules_tables[of out "filter r_active (rules_tbl w)"
            "\<lparr>f_email = em, f_success = None, f_world = w\<rparr>"]
    by (simp add: first process_email_def)
  then have act1: "filter r_active (rules_tbl w1) = pre @ rl # post" by (simp add: act)
  have start: "records_for (processed_tbl (f_world (init_frame em2 w1)))
        (gmail_id (f_email (init_frame em2 w1))) (r_identifier rl) \<noteq> []"
    using w1_has by (simp add: init_frame_def same)
  have skip: "process_email out em2 w1 = process_rules out (pre @ post) (init_frame em2 w1)"
    using process_rules_skip[OF start, of out pre post]
    by (simp add: process_email_def act1 init_frame_def[symmetric])
  have at2: "records_for (processed_tbl (f_world fr2)) (gmail_id (f_email fr2)) (r_identifier rl) =
        [?new]"
    using w1_has process_rules_keep[of "init_frame em2 w1" "gmail_id em" "r_identifier rl" out pre]
    by (simp add: at_rule process_rules_gid) (simp add: init_frame_def same)
  have final: "records_for (processed_tbl (f_world (snd (process_email out em2 w1))))
           (gmail_id em) (r_identifier rl) = [?new]"
    using w1_has
      process_rules_keep[of "init_frame em2 w1" "gmail_id em" "r_identifier rl" out "pre @ post"]
    by (simp add: skip) (simp add: init_frame_def)
  show ?thesis
    using at2 skip final by (simp add: process_rule_skip)
qed

text \<open>
  C4, amended. The ledger query answers True exactly when the ledger has a row for the
  exact (message, rule identifier) pair. When the message has rows under other
  identifiers only, it answers False together with the identifier of a row of the
  message whose timestamp is maximal. A rule whose identifier has no row is evaluated
  again, and if it matches and the last action of its non-empty list succeeds, one
  row for the new identifier is appended and all older rows are left as they were.
  Matching alone is not enough: when the last action fails no row is written, as the
  example with the failing mailbox shows.
\<close>

theorem ledger_query:
  "fst (is_already_processed w g r) = (records_for (processed_tbl w) g r \<noteq> []) \<and>
   (records_for (processed_tbl w) g r = [] \<longrightarrow>
    filter (\<lambda>p. p_gmail_id p = g) (processed_tbl w) \<noteq> [] \<longrightarrow>
      (\<exists>p\<in>set (processed_tbl w). p_gmail_id p = g \<and>
         is_already_processed w g r = (False, p_rule_identifier p) \<and>
         (\<forall>q\<in>set (processed_tbl w). p_gmail_id q = g \<longrightarrow>
            p_processed_at q \<le> p_processed_at p))) \<and>
   (w = f_world fr \<longrightarrow> g = gmail_id (f_email fr) \<longrightarrow> r = r_identifier rl \<longrightarrow>
    records_for (processed_tbl w) g r = [] \<longrightarrow>
    evaluate_rule out rl (rule_conditions w rl) (f_email fr) (ticks w) = (Inr True, t') \<longrightarrow>
    last_action_succeeded out g (port_log w) (rule_actions w rl) \<longrightarrow>
      processed_tbl (f_world (snd (process_rule out rl fr))) =
        processed_tbl w @
          [\<lparr>p_gmail_id = g, p_rule_identifier = r, p_processed_at = utcnow out t'\<rparr>])"
proof (intro conjI impI)
  show "fst (is_already_processed w g r) = (records_for (processed_tbl w) g r \<noteq> [])"
    by (rule is_already_processed_fst)
next
  assume "records_for (processed_tbl w) g r = []"
    and "filter (\<lambda>p. p_gmail_id p = g) (processed_tbl w) \<noteq> []"
  then show "\<exists>p\<in>set (processed_tbl w). p_gmail_id p = g \<and>
         is_already_processed w g r = (False, p_rule_identifier p) \<and>
         (\<forall>q\<in>set (processed_tbl w). p_gmail_id q = g \<longrightarrow>
            p_processed_at q \<le> p_processed_at p)"
    by (rule is_already_processed_other)
next
  assume w: "w = f_world fr" and g: "g = gmail_id (f_email fr)" and r: "r = r_identifier rl"
    and none: "records_for (processed_tbl w) g r = []"
    and matched: "evaluate_rule out rl (rule_conditions w rl) (f_email fr) (ticks w) = (Inr True, t')"
    and succeeded: "last_action_succeeded out g (port_log w) (rule_actions w rl)"
  have fresh: "\<not> fst (is_already_processed (f_world fr) (gmail_id (f_email fr)) (r_identifier rl))"
    using none by (simp add: is_already_processed_fst w g r)
  have ne: "rule_actions (f_world fr) rl \<noteq> []"
    using succeeded by (auto simp: last_action_succeeded_def w)
  show "processed_tbl (f_world (snd (process_rule out rl fr))) =
        processed_tbl w @
          [\<lparr>p_gmail_id = g, p_rule_identifier = r, p_processed_at = utcnow out t'\<rparr>]"
    using process_rule_matched_table[OF fresh _ ne, of out t'] matched succeeded
    by (simp add: w g r)
qed


section \<open>The properties on the example data\<close>

lemmas frame_defs = init_frame_def is_already_processed_def rule_conditions_def rule_actions_def
  evaluate_rule_def last_action_succeeded_def action_succeeded_def action_call_def records_for_def

theorem processed_iff_last_action_succeeded_witness:
  "\<not> action_succeeded example_flaky_outside ''m1'' []
       (hd (rule_actions example_world_two_actions example_rule)) \<and>
   records_for
     (processed_tbl (f_world (snd (process_email example_flaky_outside example_email
        example_world_two_actions)))) ''m1'' ''R1'' =
     [\<lparr>p_gmail_id = ''m1'', p_rule_identifier = ''R1'', p_processed_at = 8640000000001\<rparr>]"
proof -
  let ?fr = "init_frame example_email example_world_two_actions"
  have act: "filter r_active (rules_tbl example_world_two_actions) = [] @ example_rule # []"
    by (simp add: world_defs example_defs)
  have uniq: "r_identifier example_rule \<notin> set (map r_identifier [])" by simp
  have reach: "process_rules example_flaky_outside [] ?fr = (None, ?fr)" by simp
  have fresh: "\<not> fst (is_already_processed (f_world ?fr) (gmail_id (f_email ?fr))
                      (r_identifier example_rule))"
    by (simp add: frame_defs world_defs)
  have matched: "evaluate_rule example_flaky_outside example_rule
      (rule_conditions (f_world ?fr) example_rule) (f_email ?fr) (ticks (f_world ?fr)) =
      (Inr True, 1)"
    by (simp add: frame_defs world_defs example_defs eval_defs py_defs)
  have actions: "rule_actions (f_world ?fr) example_rule \<noteq> []"
    by (simp add: frame_defs world_defs example_defs)
  have las: "last_action_succeeded example_flaky_outside (gmail_id example_email)
      (port_log (f_world ?fr)) (rule_actions (f_world ?fr) example_rule)"
    by (simp add: frame_defs world_defs example_defs)
  have first_failed: "\<not> action_succeeded example_flaky_outside ''m1'' []
       (hd (rule_actions example_world_two_actions example_rule))"
    by (simp add: frame_defs world_defs example_defs)
  note th = processed_iff_last_action_succeeded[OF act uniq reach fresh matched actions]
  have "records_for
     (processed_tbl (f_world (snd (process_email example_flaky_outside example_email
        example_world_two_actions)))) (gmail_id example_email) (r_identifier example_rule) =
     [\<lparr>p_gmail_id = gmail_id example_email, p_rule_identifier = r_identifier example_rule,
       p_processed_at = utcnow example_flaky_outside 1\<rparr>]"
    using th[THEN conjunct2] by (simp only: las if_True)
  then have "records_for
     (processed_tbl (f_world (snd (process_email example_flaky_outside example_email
        example_world_two_actions)))) ''m1'' ''R1'' =
     [\<lparr>p_gmail_id = ''m1'', p_rule_identifier = ''R1'', p_processed_at = 8640000000001\<rparr>]"
    by (simp add: example_email_def example_rule_def example_flaky_outside_def)
  with first_failed show ?thesis by (rule conjI)
qed

theorem failed_action_does_not_stop_witness:
  "fst (process_rule example_flaky_outside example_rule
          (init_frame example_email example_world_two_actions)) = None \<and>
   f_email (execute_action example_flaky_outside (example_two_actions ! 0)
      (init_frame example_email (example_world_two_actions\<lparr>ticks := 1\<rparr>))) = example_email \<and>
   port_log (f_world (snd (process_rule example_flaky_outside example_rule
          (init_frame example_email example_world_two_actions)))) =
     [Mark_As_Read ''m1'', Move_Message ''m1'' (Some ''Archive'')]"
proof -
  let ?fr = "init_frame example_email example_world_two_actions"
  have fresh: "\<not> fst (is_already_processed (f_world ?fr) (gmail_id (f_email ?fr))
                      (r_identifier example_rule))"
    by (simp add: frame_defs world_defs)
  have matched: "evaluate_rule example_flaky_outside example_rule
      (rule_conditions (f_world ?fr) example_rule) (f_email ?fr) (ticks (f_world ?fr)) =
      (Inr True, 1)"
    by (simp add: frame_defs world_defs example_defs eval_defs py_defs)
  have actions: "rule_actions (f_world ?fr) example_rule =
      [] @ (example_two_actions ! 0) # [example_two_actions ! 1]"
    by (simp add: frame_defs world_defs example_defs)
  have call: "action_call (gmail_id (f_email ?fr)) (example_two_actions ! 0) =
      Some (Mark_As_Read ''m1'')"
    by (simp add: frame_defs world_defs example_defs)
  have failed: "\<not> gmail_client example_flaky_outside
      (port_log (f_world ?fr) @ action_calls (gmail_id (f_email ?fr)) []) (Mark_As_Read ''m1'')"
    by (simp add: example_flaky_outside_def)
  have at_action: "init_frame example_email (example_world_two_actions\<lparr>ticks := 1\<rparr>) =
      run_actions example_flaky_outside [] (?fr\<lparr>f_world := (f_world ?fr)\<lparr>ticks := 1\<rparr>\<rparr>)"
    by (simp add: init_frame_def)
  note th = failed_action_does_not_stop[OF fresh matched actions call failed at_action, of "[]"]
  have a: "fst (process_rule example_flaky_outside example_rule ?fr) = None"
    using th by (rule conjunct1)
  have b: "f_email (execute_action example_flaky_outside (example_two_actions ! 0)
      (init_frame example_email (example_world_two_actions\<lparr>ticks := 1\<rparr>))) = example_email"
    using th[THEN conjunct2, THEN conjunct2, THEN conjunct1] by (simp add: init_frame_def)
  have "port_log (f_world (snd (process_rule example_flaky_outside example_rule ?fr))) =
      port_log (f_world ?fr) @ action_calls (gmail_id (f_email ?fr)) [] @
        Mark_As_Read ''m1'' # action_calls (gmail_id (f_email ?fr)) [example_two_actions ! 1]"
    using th[THEN conjunct2, THEN conjunct2, THEN conjunct2, THEN conjunct2] .
  also have "\<dots> = [Mark_As_Read ''m1'', Move_Message ''m1'' (Some ''Archive'')]"
    by (simp add: frame_defs world_defs example_defs)
  finally show ?thesis using a b by simp
qed

theorem unbound_success_raises_witness:
  "process_email example_outside example_email example_world_no_actions =
     (Some UnboundLocalError, init_frame example_email example_world_no_actions) \<and>
   records_for (processed_tbl (f_world (snd (process_email example_outside example_email
      example_world_no_actions)))) ''m1'' ''R2'' = []"
proof -
  let ?fr = "init_frame example_email example_world_no_actions"
  have act: "filter r_active (rules_tbl example_world_no_actions) = [] @ example_rule_2 # []"
    by (simp add: world_defs example_defs)
  have reach: "process_rules example_outside [] ?fr = (None, ?fr)" by simp
  have unbound: "f_success ?fr = None" by (simp add: init_frame_def)
  have fresh: "\<not> fst (is_already_processed (f_world ?fr) (gmail_id (f_email ?fr))
                      (r_identifier example_rule_2))"
    by (simp add: frame_defs world_defs)
  have matched: "evaluate_rule example_outside example_rule_2
      (rule_conditions (f_world ?fr) example_rule_2) (f_email ?fr) (ticks (f_world ?fr)) =
      (Inr True, 0)"
    by (simp add: frame_defs world_defs example_defs eval_defs py_defs)
  have no_actions: "rule_actions (f_world ?fr) example_rule_2 = []"
    by (simp add: frame_defs world_defs example_defs)
  note th = unbound_success_raises[OF act reach unbound fresh matched no_actions]
  have same: "?fr\<lparr>f_world := (f_world ?fr)\<lparr>ticks := 0\<rparr>\<rparr> = ?fr"
    by (simp add: init_frame_def world_defs)
  have a: "process_email example_outside example_email example_world_no_actions =
     (Some UnboundLocalError, ?fr)"
    using th[THEN conjunct1] by (simp only: same)
  have b: "records_for (processed_tbl (f_world (snd (process_email example_outside example_email
      example_world_no_actions)))) ''m1'' ''R2'' = []"
    using th[THEN conjunct2] by (simp add: example_email_def example_rule_2_def)
  from a b show ?thesis by (rule conjI)
qed

theorem stale_success_counterexample:
  "r_active example_rule_2 \<and>
   rule_actions example_world_two_rules example_rule_2 = [] \<and>
   fst (evaluate_rule example_outside example_rule_2
          (rule_conditions example_world_two_rules example_rule_2) example_email 1) = Inr True \<and>
   fst (process_email example_outside example_email example_world_two_rules) = None \<and>
   records_for (processed_tbl (f_world (snd (process_email example_outside example_email
      example_world_two_rules)))) ''m1'' ''R2'' =
     [\<lparr>p_gmail_id = ''m1'', p_rule_identifier = ''R2'', p_processed_at = 8640000000002\<rparr>]"
  by (simp add: engine_defs records_for_def world_defs example_defs eval_defs py_defs)

theorem second_pass_skips_rule_witness:
  "process_email example_outside example_email
     (f_world (snd (process_email example_outside example_email example_world))) =
     (None, init_frame example_email
        (f_world (snd (process_email example_outside example_email example_world)))) \<and>
   port_log (f_world (snd (process_email example_outside example_email example_world))) =
     [Mark_As_Unread ''m1''] \<and>
   records_for (processed_tbl (f_world (snd (process_email example_outside example_email
     (f_world (snd (process_email example_outside example_email example_world)))))))
     ''m1'' ''R1'' =
     [\<lparr>p_gmail_id = ''m1'', p_rule_identifier = ''R1'', p_processed_at = 8640000000001\<rparr>]"
proof -
  let ?fr = "init_frame example_email example_world"
  let ?w1 = "f_world (snd (process_email example_outside example_email example_world))"
  have act: "filter r_active (rules_tbl example_world) = [] @ example_rule # []"
    by (simp add: world_defs example_defs)
  have reach: "process_rules example_outside [] ?fr = (None, ?fr)" by simp
  have fresh: "\<not> fst (is_already_processed (f_world ?fr) (gmail_id (f_email ?fr))
                      (r_identifier example_rule))"
    by (simp add: frame_defs world_defs)
  have matched: "evaluate_rule example_outside example_rule
      (rule_conditions (f_world ?fr) example_rule) (f_email ?fr) (ticks (f_world ?fr)) =
      (Inr True, 1)"
    by (simp add: frame_defs world_defs example_defs eval_defs py_defs)
  have las: "last_action_succeeded example_outside (gmail_id example_email)
      (port_log (f_world ?fr)) (rule_actions (f_world ?fr) example_rule)"
    by (simp add: frame_defs world_defs example_defs)
  note th = second_pass_skips_rule[OF act reach fresh matched las refl refl refl]
  have a: "process_email example_outside example_email ?w1 =
      (None, init_frame example_email ?w1)"
    using th[THEN conjunct2, THEN conjunct1] by simp
  have b: "port_log ?w1 = [Mark_As_Unread ''m1'']"
    by (simp add: engine_defs world_defs example_defs eval_defs py_defs)
  have c: "records_for (processed_tbl (f_world (snd (process_email example_outside example_email
     ?w1)))) ''m1'' ''R1'' =
     [\<lparr>p_gmail_id = ''m1'', p_rule_identifier = ''R1'', p_processed_at = 8640000000001\<rparr>]"
    using th[THEN conjunct2, THEN conjunct2]
    by (simp add: example_email_def example_rule_def example_outside_def)
  from a b c show ?thesis by (intro conjI)
qed

theorem ledger_query_witness:
  "is_already_processed example_world_old_identifier ''m1'' ''R1'' = (False, ''R0'') \<and>
   processed_tbl (f_world (snd (process_rule example_outside example_rule
      (init_frame example_email example_world_old_identifier)))) =
     [\<lparr>p_gmail_id = ''m1'', p_rule_identifier = ''R0'', p_processed_at = 5\<rparr>,
      \<lparr>p_gmail_id = ''m1'', p_rule_identifier = ''R1'', p_processed_at = 8640000000001\<rparr>]"
proof -
  let ?w = "example_world_old_identifier"
  let ?fr = "init_frame example_email ?w"
  note th = ledger_query[of ?w "''m1''" "''R1''" ?fr example_rule example_outside 1]
  have none: "records_for (processed_tbl ?w) ''m1'' ''R1'' = []"
    by (simp add: frame_defs world_defs)
  have some: "filter (\<lambda>p. p_gmail_id p = ''m1'') (processed_tbl ?w) \<noteq> []"
    by (simp add: world_defs)
  have w: "?w = f_world ?fr" by (simp add: init_frame_def)
  have g: "''m1'' = gmail_id (f_email ?fr)" by (simp add: init_frame_def example_email_def)
  have r: "''R1'' = r_identifier example_rule" by (simp add: example_rule_def)
  have matched: "evaluate_rule example_outside example_rule (rule_conditions ?w example_rule)
      (f_email ?fr) (ticks ?w) = (Inr True, 1)"
    by (simp add: frame_defs world_defs example_defs eval_defs py_defs)
  have las: "last_action_succeeded example_outside ''m1'' (port_log ?w)
      (rule_actions ?w example_rule)"
    by (simp add: frame_defs world_defs example_defs)
  from th none some obtain p where p: "p \<in> set (processed_tbl ?w)"
      "is_already_processed ?w ''m1'' ''R1'' = (False, p_rule_identifier p)"
    by blast
  from p(1) have "p_rule_identifier p = ''R0''" by (simp add: world_defs)
  with p(2) have a: "is_already_processed ?w ''m1'' ''R1'' = (False, ''R0'')" by simp
  from th w g r none matched las
  have "processed_tbl (f_world (snd (process_rule example_outside example_rule ?fr))) =
        processed_tbl ?w @
          [\<lparr>p_gmail_id = ''m1'', p_rule_identifier = ''R1'',
            p_processed_at = utcnow example_outside 1\<rparr>]"
    by blast
  then have b: "processed_tbl (f_world (snd (process_rule example_outside example_rule ?fr))) =
     [\<lparr>p_gmail_id = ''m1'', p_rule_identifier = ''R0'', p_processed_at = 5\<rparr>,
      \<lparr>p_gmail_id = ''m1'', p_rule_identifier = ''R1'', p_processed_at = 8640000000001\<rparr>]"
    by (simp add: world_defs example_outside_def)
  from a b show ?thesis by (rule conjI)
qed

theorem failed_action_no_record_counterexample:
  "is_already_processed example_world_old_identifier ''m1'' ''R1'' = (False, ''R0'') \<and>
   evaluate_rule example_failing_outside example_rule
     (rule_conditions example_world_old_identifier example_rule) example_email 0 = (Inr True, 1) \<and>
   fst (process_email example_failing_outside example_email example_world_old_identifier) = None \<and>
   port_log (f_world (snd (process_email example_failing_outside example_email
      example_world_old_identifier))) = [Mark_As_Unread ''m1''] \<and>
   records_for (processed_tbl (f_world (snd (process_email example_failing_outside example_email
      example_world_old_identifier)))) ''m1'' ''R1'' = []"
  by (simp add: engine_defs records_for_def world_defs example_defs eval_defs py_defs)

end
